theory Spec2Isabelle
  imports Main
begin

section \<open>Data model of the pipeline executor (csrc/multidevice/executor.cpp)\<close>

text \<open>
  Ranks and device indices are integers; graph values (\<^verbatim>\<open>Val*\<close>) and stages
  (\<^verbatim>\<open>PipelineStage*\<close>) are identified by their address. A tensor is a handle: the
  Communicator and the runners write through it, which this layer never observes.
  Container sizes and loop counters are natural numbers: a mesh has far fewer than
  \<open>2^31\<close> devices, so neither \<^verbatim>\<open>size_t\<close> nor the \<^verbatim>\<open>int\<close> counter \<^verbatim>\<open>j\<close> wraps.
\<close>

type_synonym RankType = int
type_synonym DeviceIdxType = int
type_synonym val_ptr = nat
type_synonym stage_ptr = nat

datatype tensor = Tensor nat

text \<open>\<^verbatim>\<open>c10::IValue\<close>: a default-constructed one is None; only a tensor answers \<^verbatim>\<open>toTensor()\<close>.\<close>

datatype IValue = INone | ITensor tensor | IScalar int

text \<open>
  How a call can end other than by returning: the C++ exceptions of
  \<^verbatim>\<open>TORCH_INTERNAL_ASSERT\<close>, of \<^verbatim>\<open>at()\<close> (\<^verbatim>\<open>std::out_of_range\<close>) and of \<^verbatim>\<open>toTensor()\<close>.
  Where the behaviour of the C++ program is undefined (the unsigned division
  \<^verbatim>\<open>size_t / 0\<close>, a call through a null \<^verbatim>\<open>unique_ptr\<close>) the model gives no result at all:
  the value there is \<^const>\<open>undefined\<close>, of which nothing can be proved.
\<close>

datatype failure = InternalAssert string | OutOfRange | NotATensor

fun thrown :: "failure \<Rightarrow> bool" where
  "thrown (InternalAssert msg) = True"
| "thrown OutOfRange = True"
| "thrown NotATensor = True"

definition fails_fatally :: "failure + 'a \<Rightarrow> bool" where
  "fails_fatally r = (case r of Inl f \<Rightarrow> thrown f | Inr x \<Rightarrow> False)"

record PipelineStage =
  mesh :: "DeviceIdxType list"
  inputs :: "val_ptr list"
  outputs :: "val_ptr list"

record PipelineCommunication =
  c_in :: val_ptr
  c_out :: val_ptr

datatype node = StageNode stage_ptr | CommNode PipelineCommunication

text \<open>
  The pipeline as the executor reads it: the stage behind a stage pointer, the stage a
  value belongs to (\<^verbatim>\<open>PipelineVal::getStage\<close>), the global inputs and outputs, and the
  order in which \<^verbatim>\<open>traverseTo\<close> (the IterVisitor base class, not part of this file)
  dispatches the nodes to \<^verbatim>\<open>handle\<close>.
\<close>

record Pipeline =
  stage_at :: "stage_ptr \<Rightarrow> PipelineStage"
  getStage :: "val_ptr \<Rightarrow> stage_ptr"
  p_inputs :: "val_ptr list"
  p_outputs :: "val_ptr list"
  traversal :: "node list"

datatype FusionExecutorCache = FusionExecutorCache stage_ptr

text \<open>
  Modelled from the spec: \<^verbatim>\<open>MultiDeviceRuntime\<close>, the Communicator and
  \<^verbatim>\<open>FusionExecutorCache\<close> are declared outside this file. The runtime gives the local
  rank, the rank mapping in both directions and the pipeline; a runner is built from the
  fusion of its stage and maps inputs to tensors, computed (\<^verbatim>\<open>runFusionWithInputs\<close>) or
  placeholders (\<^verbatim>\<open>allocOutputSpace\<close>); both are consumed as black boxes.
\<close>

record MultiDeviceRuntime =
  rank :: RankType
  rankToDiD :: "RankType \<Rightarrow> DeviceIdxType"
  dIdToRank :: "DeviceIdxType \<Rightarrow> RankType"
  pipeline :: Pipeline
  runFusionWithInputs :: "FusionExecutorCache \<Rightarrow> IValue list \<Rightarrow> tensor list"
  allocOutputSpace :: "FusionExecutorCache \<Rightarrow> IValue list \<Rightarrow> tensor list"

text \<open>
  The calls the executor makes to the outside, in order: the membership computation
  (\<^verbatim>\<open>rankToDiD\<close> and \<^verbatim>\<open>std::count\<close> over the mesh), the construction of a runner, the two
  runner entry points, and \<^verbatim>\<open>comm_.sendRecv(receiver, sender, tensor)\<close>.
\<close>

datatype event =
    CountMesh stage_ptr
  | MakeFec stage_ptr
  | RunFusion stage_ptr "IValue list"
  | AllocOutput stage_ptr "IValue list"
  | SendRecv RankType RankType tensor

text \<open>
  Modelled from the spec: the class declaration (executor.h) is not among the sources.
  The members are the ValueStore (value to result), the runner cache (stage to runner)
  and the membership cache (stage to boolean), as lines 16 to 24, 31 to 39 and 50 use
  them; \<open>calls\<close> is the log of the calls above.
\<close>

record PipelineExecutor =
  val_to_IValue :: "val_ptr \<rightharpoonup> IValue"
  fec :: "stage_ptr \<rightharpoonup> FusionExecutorCache"
  should_run :: "stage_ptr \<rightharpoonup> bool"
  calls :: "event list"

definition new_executor :: PipelineExecutor where
  "new_executor = \<lparr>val_to_IValue = Map.empty, fec = Map.empty, should_run = Map.empty, calls = []\<rparr>"

record SendRecvDescriptor =
  team :: "RankType list"
  root :: RankType

section \<open>Operations\<close>

text \<open>\<^verbatim>\<open>std::unordered_map::operator[]\<close>: a missing key is inserted with the default value.\<close>

definition subscript :: "('k \<rightharpoonup> 'v) \<Rightarrow> 'k \<Rightarrow> 'v \<Rightarrow> 'v \<times> ('k \<rightharpoonup> 'v)" where
  "subscript m k dflt = (case m k of Some v \<Rightarrow> (v, m) | None \<Rightarrow> (dflt, m(k \<mapsto> dflt)))"

text \<open>\<^verbatim>\<open>IValue::toTensor()\<close>.\<close>

fun toTensor :: "IValue \<Rightarrow> failure + tensor" where
  "toTensor (ITensor t) = Inr t"
| "toTensor INone = Inl NotATensor"
| "toTensor (IScalar n) = Inl NotATensor"

subsection \<open>shouldRun\<close>

definition local_device :: "MultiDeviceRuntime \<Rightarrow> DeviceIdxType" where
  "local_device rt = rankToDiD rt (rank rt)"

definition stage_mesh :: "MultiDeviceRuntime \<Rightarrow> stage_ptr \<Rightarrow> DeviceIdxType list" where
  "stage_mesh rt s = mesh (stage_at (pipeline rt) s)"

text \<open>The count that \<^verbatim>\<open>emplace\<close> stores is converted to \<^verbatim>\<open>bool\<close>: true when it is not zero.\<close>

definition shouldRun :: "MultiDeviceRuntime \<Rightarrow> PipelineExecutor \<Rightarrow> stage_ptr \<Rightarrow> bool \<times> PipelineExecutor" where
  "shouldRun rt e s =
     (let e1 = (if should_run e s = None
                then e\<lparr>should_run := (should_run e)(s \<mapsto> count_list (stage_mesh rt s) (local_device rt) \<noteq> 0),
                       calls := calls e @ [CountMesh s]\<rparr>
                else e);
          (b, m) = subscript (should_run e1) s False
      in (b, e1\<lparr>should_run := m\<rparr>))"

subsection \<open>handle(PipelineStage*)\<close>

fun read_inputs :: "val_ptr list \<Rightarrow> (val_ptr \<rightharpoonup> IValue) \<Rightarrow> IValue list \<Rightarrow> IValue list \<times> (val_ptr \<rightharpoonup> IValue)" where
  "read_inputs [] m acc = (acc, m)"
| "read_inputs (v # vs) m acc = (let (x, m1) = subscript m v INone in read_inputs vs m1 (acc @ [x]))"

text \<open>
  The loop over \<^verbatim>\<open>c10::irange(stage->outputs().size())\<close>. The right-hand side
  \<^verbatim>\<open>outputs.at(output_idx)\<close> is evaluated first and throws when the runner returned too
  few tensors; the bindings made before stay.
\<close>

fun store_outputs :: "val_ptr list \<Rightarrow> tensor list \<Rightarrow> nat list \<Rightarrow> (val_ptr \<rightharpoonup> IValue) \<Rightarrow> (failure + unit) \<times> (val_ptr \<rightharpoonup> IValue)" where
  "store_outputs outs res [] m = (Inr (), m)"
| "store_outputs outs res (idx # idxs) m =
     (if idx < length res
      then store_outputs outs res idxs (m(outs ! idx \<mapsto> ITensor (res ! idx)))
      else (Inl OutOfRange, m))"

text \<open>
  Lines 27 to 52. The inputs are read with \<^verbatim>\<open>operator[]\<close>; the runner is emplaced when the
  cache has none; \<^verbatim>\<open>fec_[stage]\<close> then finds it (on a missing key \<^verbatim>\<open>operator[]\<close> would
  insert a null pointer, and the call through it would be undefined).
\<close>

definition handle_stage :: "MultiDeviceRuntime \<Rightarrow> PipelineExecutor \<Rightarrow> stage_ptr \<Rightarrow> (failure + unit) \<times> PipelineExecutor" where
  "handle_stage rt e s =
     (let st = stage_at (pipeline rt) s;
          (stage_input_IValues, m1) = read_inputs (inputs st) (val_to_IValue e) [];
          e1 = e\<lparr>val_to_IValue := m1\<rparr>;
          e2 = (if fec e1 s = None
                then e1\<lparr>fec := (fec e1)(s \<mapsto> FusionExecutorCache s), calls := calls e1 @ [MakeFec s]\<rparr>
                else e1);
          (run, e3) = shouldRun rt e2 s
      in case fec e3 s of
           None \<Rightarrow> undefined
         | Some runner \<Rightarrow>
             (let res = (if run then runFusionWithInputs rt runner stage_input_IValues
                         else allocOutputSpace rt runner stage_input_IValues);
                  e4 = e3\<lparr>calls := calls e3 @ [if run then RunFusion s stage_input_IValues
                                                   else AllocOutput s stage_input_IValues]\<rparr>;
                  (r, m2) = store_outputs (outputs st) res [0..<length (outputs st)] (val_to_IValue e4)
              in (r, e4\<lparr>val_to_IValue := m2\<rparr>)))"

subsection \<open>handle(PipelineCommunication*)\<close>

text \<open>
  The inner loop: \<^verbatim>\<open>for (counter = 0; counter < bound; counter++, j++)\<close> pushes
  \<^verbatim>\<open>receiver_ranks.at(j)\<close> on the team; \<^verbatim>\<open>at\<close> throws out of range.
\<close>

function fill_team :: "RankType list \<Rightarrow> nat \<Rightarrow> nat \<Rightarrow> nat \<Rightarrow> RankType list \<Rightarrow> failure + (RankType list \<times> nat)" where
  "fill_team receiver_ranks bound counter j tm =
     (if counter < bound
      then (if j < length receiver_ranks
            then fill_team receiver_ranks bound (Suc counter) (Suc j) (tm @ [receiver_ranks ! j])
            else Inl OutOfRange)
      else Inr (tm, j))"
  by pat_completeness auto
termination
  by (relation "measure (\<lambda>(receiver_ranks, bound, counter, j, tm). bound - counter)") auto

text \<open>The outer loop over \<^verbatim>\<open>c10::irange(nbr_srcs)\<close>; \<^verbatim>\<open>sender_ranks.at(i)\<close> is in range there.\<close>

function split_dests :: "RankType list \<Rightarrow> RankType list \<Rightarrow> nat \<Rightarrow> nat \<Rightarrow> nat \<Rightarrow> nat \<Rightarrow> SendRecvDescriptor list \<Rightarrow> failure + SendRecvDescriptor list" where
  "split_dests sender_ranks receiver_ranks nbr_dests_per_comm remainder i j communications =
     (if i < length sender_ranks
      then (let src = sender_ranks ! i
            in case fill_team receiver_ranks (nbr_dests_per_comm + (if i < remainder then 1 else 0)) 0 j [src] of
                 Inl f \<Rightarrow> Inl f
               | Inr (tm, j1) \<Rightarrow>
                   split_dests sender_ranks receiver_ranks nbr_dests_per_comm remainder (Suc i) j1
                     (communications @ [\<lparr>team = tm, root = src\<rparr>]))
      else Inr communications)"
  by pat_completeness auto
termination
  by (relation "measure (\<lambda>(sender_ranks, receiver_ranks, q, r, i, j, cs). length sender_ranks - i)") auto

text \<open>
  Lines 84 to 99: the quotient and the remainder divide by the number of senders. With
  no sender the division of line 85 is by zero: the behaviour is undefined and the model
  leaves the result unspecified.
\<close>

definition lower_communication :: "RankType list \<Rightarrow> RankType list \<Rightarrow> failure + SendRecvDescriptor list" where
  "lower_communication sender_ranks receiver_ranks =
     (let nbr_srcs = length sender_ranks
      in if nbr_srcs = 0 then undefined
         else split_dests sender_ranks receiver_ranks
                (length receiver_ranks div nbr_srcs) (length receiver_ranks mod nbr_srcs) 0 0 [])"

definition sender_ranks_of :: "MultiDeviceRuntime \<Rightarrow> PipelineCommunication \<Rightarrow> RankType list" where
  "sender_ranks_of rt c = map (dIdToRank rt) (stage_mesh rt (getStage (pipeline rt) (c_in c)))"

definition receiver_ranks_of :: "MultiDeviceRuntime \<Rightarrow> PipelineCommunication \<Rightarrow> RankType list" where
  "receiver_ranks_of rt c = map (dIdToRank rt) (stage_mesh rt (getStage (pipeline rt) (c_out c)))"

text \<open>Lines 111 to 116: one \<^verbatim>\<open>sendRecv\<close> for every member of every team, the root as sender.\<close>

definition send_team :: "tensor \<Rightarrow> SendRecvDescriptor \<Rightarrow> event list \<Rightarrow> event list" where
  "send_team t communication log =
     fold (\<lambda>receiver_rank l. l @ [SendRecv receiver_rank (root communication) t]) (team communication) log"

definition send_all :: "tensor \<Rightarrow> SendRecvDescriptor list \<Rightarrow> event list \<Rightarrow> event list" where
  "send_all t communications log = fold (send_team t) communications log"

definition handle_comm :: "MultiDeviceRuntime \<Rightarrow> PipelineExecutor \<Rightarrow> PipelineCommunication \<Rightarrow> (failure + unit) \<times> PipelineExecutor" where
  "handle_comm rt e c =
     (case lower_communication (sender_ranks_of rt c) (receiver_ranks_of rt c) of
        Inl f \<Rightarrow> (Inl f, e)
      | Inr communications \<Rightarrow>
          (case val_to_IValue e (c_in c) of
             None \<Rightarrow> (Inl OutOfRange, e)
           | Some iv \<Rightarrow>
               (case toTensor iv of
                  Inl f \<Rightarrow> (Inl f, e)
                | Inr t \<Rightarrow>
                    (Inr (), e\<lparr>calls := send_all t communications (calls e),
                               val_to_IValue := (val_to_IValue e)(c_out c \<mapsto> ITensor t)\<rparr>))))"

subsection \<open>runWithInput\<close>

fun handle :: "MultiDeviceRuntime \<Rightarrow> PipelineExecutor \<Rightarrow> node \<Rightarrow> (failure + unit) \<times> PipelineExecutor" where
  "handle rt e (StageNode s) = handle_stage rt e s"
| "handle rt e (CommNode c) = handle_comm rt e c"

text \<open>
  Modelled from the spec: \<^verbatim>\<open>traverseTo\<close> belongs to the IterVisitor base class, which is
  not in this file. It yields the nodes in a valid topological order
  (\<^const>\<open>traversal\<close>) and dispatches each to \<^verbatim>\<open>handle\<close>; an exception ends the traversal.
\<close>

fun traverseTo :: "MultiDeviceRuntime \<Rightarrow> PipelineExecutor \<Rightarrow> node list \<Rightarrow> (failure + unit) \<times> PipelineExecutor" where
  "traverseTo rt e [] = (Inr (), e)"
| "traverseTo rt e (n # ns) =
     (case handle rt e n of
        (Inl f, e1) \<Rightarrow> (Inl f, e1)
      | (Inr u, e1) \<Rightarrow> traverseTo rt e1 ns)"

text \<open>Lines 128 to 131; the assertion before makes both \<^verbatim>\<open>at\<close> calls in range.\<close>

definition bind_inputs :: "val_ptr list \<Rightarrow> IValue list \<Rightarrow> (val_ptr \<rightharpoonup> IValue) \<Rightarrow> (val_ptr \<rightharpoonup> IValue)" where
  "bind_inputs vs ins m = fold (\<lambda>input_idx m1. m1(vs ! input_idx \<mapsto> ins ! input_idx)) [0..<length ins] m"

text \<open>Lines 137 to 140: \<^verbatim>\<open>val_to_IValue_[output_val].toTensor()\<close> for every global output.\<close>

fun collect_outputs :: "val_ptr list \<Rightarrow> (val_ptr \<rightharpoonup> IValue) \<Rightarrow> tensor list \<Rightarrow> (failure + tensor list) \<times> (val_ptr \<rightharpoonup> IValue)" where
  "collect_outputs [] m acc = (Inr acc, m)"
| "collect_outputs (v # vs) m acc =
     (let (x, m1) = subscript m v INone
      in case toTensor x of
           Inl f \<Rightarrow> (Inl f, m1)
         | Inr t \<Rightarrow> collect_outputs vs m1 (acc @ [t]))"

definition runWithInput :: "MultiDeviceRuntime \<Rightarrow> PipelineExecutor \<Rightarrow> IValue list \<Rightarrow> (failure + tensor list) \<times> PipelineExecutor" where
  "runWithInput rt e ins =
     (if length ins \<noteq> length (p_inputs (pipeline rt))
      then (Inl (InternalAssert ''Wrong number of inputs''), e)
      else (let e1 = e\<lparr>val_to_IValue := bind_inputs (p_inputs (pipeline rt)) ins (val_to_IValue e)\<rparr>
            in case traverseTo rt e1 (traversal (pipeline rt)) of
                 (Inl f, e2) \<Rightarrow> (Inl f, e2)
               | (Inr u, e2) \<Rightarrow>
                   (let (r, m) = collect_outputs (p_outputs (pipeline rt)) (val_to_IValue e2) []
                    in (r, e2\<lparr>val_to_IValue := m\<rparr>))))"

section \<open>Vocabulary of the properties\<close>

text \<open>
  The allotment of sender \<open>i\<close>, the position in the receiver list where its slice
  starts, and the slice itself.
\<close>

definition nbr_dests :: "nat \<Rightarrow> nat \<Rightarrow> nat \<Rightarrow> nat" where
  "nbr_dests nbr_srcs nbr_rcvs i = nbr_rcvs div nbr_srcs + (if i < nbr_rcvs mod nbr_srcs then 1 else 0)"

definition first_dest :: "nat \<Rightarrow> nat \<Rightarrow> nat \<Rightarrow> nat" where
  "first_dest nbr_srcs nbr_rcvs i = i * (nbr_rcvs div nbr_srcs) + min i (nbr_rcvs mod nbr_srcs)"

definition slice_of :: "RankType list \<Rightarrow> RankType list \<Rightarrow> nat \<Rightarrow> RankType list" where
  "slice_of ss rs i = take (nbr_dests (length ss) (length rs) i) (drop (first_dest (length ss) (length rs) i) rs)"

text \<open>Membership of the local device in the mesh of a stage.\<close>

definition is_local :: "MultiDeviceRuntime \<Rightarrow> stage_ptr \<Rightarrow> bool" where
  "is_local rt s = (local_device rt \<in> set (stage_mesh rt s))"

text \<open>The calls lines 111 to 116 make for a list of descriptors and a payload.\<close>

definition transfers :: "tensor \<Rightarrow> SendRecvDescriptor list \<Rightarrow> event list" where
  "transfers t communications =
     concat (map (\<lambda>c. map (\<lambda>receiver_rank. SendRecv receiver_rank (root c) t) (team c)) communications)"

text \<open>
  The caches agree with the log of calls and with the pipeline: a stage is in a cache
  exactly when its entry was computed, once, and the entry is the membership of the local
  device, respectively the runner of that stage.
\<close>

definition cache_sound :: "MultiDeviceRuntime \<Rightarrow> PipelineExecutor \<Rightarrow> bool" where
  "cache_sound rt e =
     (\<forall>s. count_list (calls e) (CountMesh s) = (if should_run e s = None then 0 else 1)
        \<and> count_list (calls e) (MakeFec s) = (if fec e s = None then 0 else 1)
        \<and> (\<forall>b. should_run e s = Some b \<longrightarrow> b = is_local rt s)
        \<and> (\<forall>f. fec e s = Some f \<longrightarrow> f = FusionExecutorCache s))"

text \<open>
  A later state of the same executor: no binding and no cache entry is lost, the log
  grows, and what is added to it constructs a runner or computes a membership only for a
  stage that had none.
\<close>

definition extends :: "PipelineExecutor \<Rightarrow> PipelineExecutor \<Rightarrow> bool" where
  "extends e e' =
     (dom (val_to_IValue e) \<subseteq> dom (val_to_IValue e')
      \<and> fec e \<subseteq>\<^sub>m fec e' \<and> should_run e \<subseteq>\<^sub>m should_run e'
      \<and> (\<exists>new. calls e' = calls e @ new
            \<and> (\<forall>s. MakeFec s \<in> set new \<longrightarrow> fec e s = None)
            \<and> (\<forall>s. CountMesh s \<in> set new \<longrightarrow> should_run e s = None)))"

text \<open>
  The states an executor goes through in its lifetime: constructed empty, then changed by
  its member functions only, for a fixed runtime.
\<close>

inductive reachable :: "MultiDeviceRuntime \<Rightarrow> PipelineExecutor \<Rightarrow> bool" for rt where
  constructed: "reachable rt new_executor"
| after_run: "reachable rt e \<Longrightarrow> reachable rt (snd (runWithInput rt e ins))"
| after_handle: "reachable rt e \<Longrightarrow> reachable rt (snd (handle rt e n))"
| after_query: "reachable rt e \<Longrightarrow> reachable rt (snd (shouldRun rt e s))"

text \<open>
  The executor at the moment line 44 calls \<^verbatim>\<open>shouldRun\<close>: the inputs are read (line 31)
  and the runner is in its cache (lines 35 to 40).
\<close>

definition query_state :: "MultiDeviceRuntime \<Rightarrow> PipelineExecutor \<Rightarrow> stage_ptr \<Rightarrow> PipelineExecutor" where
  "query_state rt e s =
     (let e1 = e\<lparr>val_to_IValue := snd (read_inputs (inputs (stage_at (pipeline rt) s)) (val_to_IValue e) [])\<rparr>
      in if fec e1 s = None
         then e1\<lparr>fec := (fec e1)(s \<mapsto> FusionExecutorCache s), calls := calls e1 @ [MakeFec s]\<rparr>
         else e1)"

section \<open>A pipeline of two stages and one edge\<close>

text \<open>
  Stage 1 takes the global input 0 and produces value 1 on the mesh given as parameter;
  the edge sends value 1 to value 2; stage 2, on devices 1 and 2, consumes value 2 and
  produces the global output 3. Ranks are device indices, and both runner entry points
  return the tensors given as parameter.
\<close>

definition example_stage :: "DeviceIdxType list \<Rightarrow> stage_ptr \<Rightarrow> PipelineStage" where
  "example_stage producer_mesh s =
     (if s = 1 then \<lparr>mesh = producer_mesh, inputs = [0], outputs = [1]\<rparr>
      else \<lparr>mesh = [1, 2], inputs = [2], outputs = [3]\<rparr>)"

definition example_comm :: PipelineCommunication where
  "example_comm = \<lparr>c_in = 1, c_out = 2\<rparr>"

definition example_pipeline :: "DeviceIdxType list \<Rightarrow> Pipeline" where
  "example_pipeline producer_mesh =
     \<lparr>stage_at = example_stage producer_mesh,
      getStage = (\<lambda>v. if v \<le> 1 then 1 else 2),
      p_inputs = [0], p_outputs = [3],
      traversal = [StageNode 1, CommNode example_comm, StageNode 2]\<rparr>"

definition example_runtime :: "RankType \<Rightarrow> DeviceIdxType list \<Rightarrow> tensor list \<Rightarrow> MultiDeviceRuntime" where
  "example_runtime r producer_mesh results =
     \<lparr>rank = r, rankToDiD = (\<lambda>r. r), dIdToRank = (\<lambda>d. d),
      pipeline = example_pipeline producer_mesh,
      runFusionWithInputs = (\<lambda>f ivs. results),
      allocOutputSpace = (\<lambda>f ivs. results)\<rparr>"

text \<open>The same pipeline with runners of different arity: two tensors for stage 1, none for stage 2.\<close>

definition uneven_runtime :: "RankType \<Rightarrow> MultiDeviceRuntime" where
  "uneven_runtime r =
     \<lparr>rank = r, rankToDiD = (\<lambda>r. r), dIdToRank = (\<lambda>d. d),
      pipeline = example_pipeline [0],
      runFusionWithInputs = (\<lambda>f ivs. if f = FusionExecutorCache 1 then [Tensor 8, Tensor 9] else []),
      allocOutputSpace = (\<lambda>f ivs. if f = FusionExecutorCache 1 then [Tensor 8, Tensor 9] else [])\<rparr>"

definition input_bound :: PipelineExecutor where
  "input_bound = new_executor\<lparr>val_to_IValue := [0 \<mapsto> ITensor (Tensor 5)]\<rparr>"

definition producer_bound :: PipelineExecutor where
  "producer_bound = new_executor\<lparr>val_to_IValue := [1 \<mapsto> ITensor (Tensor 7)]\<rparr>"

section \<open>Communication lowering\<close>


declare fill_team.simps [simp del] split_dests.simps [simp del]

lemma fill_team_in_range:
  "j + (bound - counter) \<le> length rs \<Longrightarrow>
   fill_team rs bound counter j tm = Inr (tm @ take (bound - counter) (drop j rs), j + (bound - counter))"
proof (induction rs bound counter j tm rule: fill_team.induct)
  case (1 rs bound counter j tm)
  show ?case
  proof (cases "counter < bound")
    case False
    then show ?thesis by (simp add: fill_team.simps)
  next
    case True
    with "1.prems" have j: "j < length rs" by simp
    from True obtain k where k: "bound - counter = Suc k" "bound - Suc counter = k"
      by (metis Suc_diff_Suc)
    from "1.prems" k have "Suc j + (bound - Suc counter) \<le> length rs" by simp
    from "1.IH"[OF True j this] True j k show ?thesis
      by (simp add: fill_team.simps[of rs bound counter] Cons_nth_drop_Suc[symmetric])
  qed
qed

lemma first_dest_Suc:
  "first_dest n m (Suc i) = first_dest n m i + nbr_dests n m i"
  by (simp add: first_dest_def nbr_dests_def min_def)

lemma first_dest_le:
  assumes "i \<le> n" "0 < n"
  shows "first_dest n m i \<le> m"
proof -
  have "i * (m div n) \<le> n * (m div n)" using assms by simp
  moreover have "min i (m mod n) \<le> m mod n" by simp
  moreover have "n * (m div n) + m mod n = m" by simp
  ultimately show ?thesis unfolding first_dest_def by linarith
qed

lemma first_dest_all:
  assumes "0 < n"
  shows "first_dest n m n = m"
proof -
  have "m mod n < n" using assms by simp
  then have "min n (m mod n) = m mod n" by simp
  then show ?thesis by (simp add: first_dest_def)
qed

lemma split_dests_from:
  assumes "ss \<noteq> []"
  shows "i \<le> length ss \<Longrightarrow>
     split_dests ss rs (length rs div length ss) (length rs mod length ss) i (first_dest (length ss) (length rs) i) cs
       = Inr (cs @ map (\<lambda>k. \<lparr>team = ss ! k # slice_of ss rs k, root = ss ! k\<rparr>) [i..<length ss])"
proof (induction "length ss - i" arbitrary: i cs)
  case 0
  then show ?case by (simp add: split_dests.simps)
next
  case (Suc d)
  let ?n = "length ss" and ?m = "length rs"
  from Suc.hyps(2) have i: "i < ?n" by simp
  have le: "first_dest ?n ?m (Suc i) \<le> ?m"
    using first_dest_le[of "Suc i" ?n ?m] i by linarith
  then have "first_dest ?n ?m i + (nbr_dests ?n ?m i - 0) \<le> length rs"
    by (simp add: first_dest_Suc)
  from fill_team_in_range[OF this, of "[ss ! i]"]
  have ft: "fill_team rs (?m div ?n + (if i < ?m mod ?n then 1 else 0)) 0 (first_dest ?n ?m i) [ss ! i]
      = Inr (ss ! i # slice_of ss rs i, first_dest ?n ?m (Suc i))"
    by (simp add: nbr_dests_def slice_of_def first_dest_Suc)
  have d: "d = ?n - Suc i" using Suc.hyps(2) by simp
  have "Suc i \<le> ?n" using i by simp
  from Suc.hyps(1)[OF d this] i ft show ?case
    by (simp add: split_dests.simps[of ss rs _ _ i] upt_conv_Cons Let_def)
qed

lemma lower_communication_eq:
  assumes "ss \<noteq> []"
  shows "lower_communication ss rs = Inr (map (\<lambda>k. \<lparr>team = ss ! k # slice_of ss rs k, root = ss ! k\<rparr>) [0..<length ss])"
  using split_dests_from[OF assms, of 0 rs "[]"] assms
  by (simp add: lower_communication_def first_dest_def)

lemma concat_slices:
  "n \<le> length ss \<Longrightarrow> ss \<noteq> [] \<Longrightarrow>
   concat (map (slice_of ss rs) [0..<n]) = take (first_dest (length ss) (length rs) n) rs"
proof (induction n)
  case 0
  then show ?case by (simp add: first_dest_def)
next
  case (Suc n)
  then show ?case
    by (simp add: slice_of_def first_dest_Suc take_add)
qed

lemma length_slice_of:
  assumes "ss \<noteq> []" "i < length ss"
  shows "length (slice_of ss rs i) = nbr_dests (length ss) (length rs) i"
proof -
  have "first_dest (length ss) (length rs) (Suc i) \<le> length rs"
    using first_dest_le[of "Suc i" "length ss" "length rs"] assms by simp
  then show ?thesis by (simp add: slice_of_def first_dest_Suc)
qed

text \<open>
  Claim C1. For a non-empty sender list, the lowering returns one descriptor per sender,
  in sender order. The team of sender \<open>i\<close> is the sender followed by a contiguous slice
  of the receiver list, of \<open>|R| div |S|\<close> receivers and one more for the first
  \<open>|R| mod |S|\<close> senders (an empty slice when there are fewer receivers than senders);
  the slices, put one after the other, are the receiver list itself, so that every
  receiver position is in exactly one team.
\<close>

theorem lower_communication_partition:
  assumes "sender_ranks \<noteq> []"
  shows "\<exists>cs. lower_communication sender_ranks receiver_ranks = Inr cs
     \<and> length cs = length sender_ranks
     \<and> map root cs = sender_ranks
     \<and> (\<forall>i < length sender_ranks.
           team (cs ! i) = sender_ranks ! i #
              take (nbr_dests (length sender_ranks) (length receiver_ranks) i)
                   (drop (first_dest (length sender_ranks) (length receiver_ranks) i) receiver_ranks)
         \<and> length (tl (team (cs ! i))) =
              length receiver_ranks div length sender_ranks
                + (if i < length receiver_ranks mod length sender_ranks then 1 else 0))
     \<and> concat (map (\<lambda>c. tl (team c)) cs) = receiver_ranks"
proof -
  let ?cs = "map (\<lambda>k. \<lparr>team = sender_ranks ! k # slice_of sender_ranks receiver_ranks k, root = sender_ranks ! k\<rparr>) [0..<length sender_ranks]"
  have 1: "lower_communication sender_ranks receiver_ranks = Inr ?cs"
    by (rule lower_communication_eq[OF assms])
  have 2: "length ?cs = length sender_ranks" by simp
  have 3: "map root ?cs = sender_ranks"
    by (simp add: comp_def map_nth)
  have 4: "\<forall>i < length sender_ranks.
           team (?cs ! i) = sender_ranks ! i #
              take (nbr_dests (length sender_ranks) (length receiver_ranks) i)
                   (drop (first_dest (length sender_ranks) (length receiver_ranks) i) receiver_ranks)
         \<and> length (tl (team (?cs ! i))) =
              length receiver_ranks div length sender_ranks
                + (if i < length receiver_ranks mod length sender_ranks then 1 else 0)"
    using length_slice_of[OF assms, of _ receiver_ranks]
    by (simp add: slice_of_def[symmetric]) (simp add: nbr_dests_def)
  have "concat (map (\<lambda>c. tl (team c)) ?cs) = concat (map (slice_of sender_ranks receiver_ranks) [0..<length sender_ranks])"
    by (simp add: comp_def)
  also have "\<dots> = receiver_ranks"
    using concat_slices[of "length sender_ranks" sender_ranks receiver_ranks] assms
    by (simp add: first_dest_all)
  finally have 5: "concat (map (\<lambda>c. tl (team c)) ?cs) = receiver_ranks" .
  from 1 2 3 4 5 show ?thesis by blast
qed

theorem lower_communication_partition_witness:
  "[10, 11, 12] \<noteq> ([] :: RankType list)
   \<and> lower_communication [10, 11, 12] [0, 1, 2, 3, 4, 5, 6]
       = Inr [\<lparr>team = [10, 0, 1, 2], root = 10\<rparr>, \<lparr>team = [11, 3, 4], root = 11\<rparr>, \<lparr>team = [12, 5, 6], root = 12\<rparr>]
   \<and> (\<exists>cs. lower_communication [10, 11, 12] [0, 1, 2, 3, 4, 5, 6] = Inr cs
        \<and> length cs = 3 \<and> concat (map (\<lambda>c. tl (team c)) cs) = [0, 1, 2, 3, 4, 5, 6])
   \<and> lower_communication [10, 11, 12] [0, 1]
       = Inr [\<lparr>team = [10, 0], root = 10\<rparr>, \<lparr>team = [11, 1], root = 11\<rparr>, \<lparr>team = [12], root = 12\<rparr>]
   \<and> (\<exists>cs. lower_communication [10, 11, 12] [0, 1] = Inr cs
        \<and> length cs = 3 \<and> concat (map (\<lambda>c. tl (team c)) cs) = [0, 1])"
proof -
  have h: "[10, 11, 12] \<noteq> ([] :: RankType list)" by simp
  have ev: "lower_communication [10, 11, 12] [0, 1, 2, 3, 4, 5, 6]
       = Inr [\<lparr>team = [10, 0, 1, 2], root = 10\<rparr>, \<lparr>team = [11, 3, 4], root = 11\<rparr>, \<lparr>team = [12, 5, 6], root = 12\<rparr>]"
    by (simp add: lower_communication_def split_dests.simps fill_team.simps)
  have ev2: "lower_communication [10, 11, 12] [0, 1]
       = Inr [\<lparr>team = [10, 0], root = 10\<rparr>, \<lparr>team = [11, 1], root = 11\<rparr>, \<lparr>team = [12], root = 12\<rparr>]"
    by (simp add: lower_communication_def split_dests.simps fill_team.simps)
  from lower_communication_partition[OF h, of "[0, 1, 2, 3, 4, 5, 6]"]
    lower_communication_partition[OF h, of "[0, 1]"] h ev ev2
  show ?thesis by simp
qed

lemma lower_communication_roots:
  assumes "ss \<noteq> []" "lower_communication ss rs = Inr cs"
  shows "\<forall>d \<in> set cs. hd (team d) = root d \<and> root d \<in> set (team d)"
  using lower_communication_eq[OF assms(1), of rs] assms(2) by auto

section \<open>What the member functions do to the executor\<close>

lemma subscript_Some: "m k = Some v \<Longrightarrow> subscript m k d = (v, m)"
  by (simp add: subscript_def)

lemma subscript_None: "m k = None \<Longrightarrow> subscript m k d = (d, m(k \<mapsto> d))"
  by (simp add: subscript_def)

lemma count_nonzero_iff: "(count_list xs x \<noteq> 0) = (x \<in> set xs)"
  by (simp add: count_list_0_iff)

lemma count_pos_iff: "(0 < count_list xs x) = (x \<in> set xs)"
  using count_nonzero_iff[of xs x] by simp

lemma toTensor_Inr_iff: "(toTensor x = Inr t) = (x = ITensor t)"
  by (cases x) simp_all

lemma shouldRun_cached:
  "should_run e s = Some b \<Longrightarrow> shouldRun rt e s = (b, e)"
  by (simp add: shouldRun_def subscript_Some)

lemma shouldRun_first:
  "should_run e s = None \<Longrightarrow>
   shouldRun rt e s = (is_local rt s,
      e\<lparr>should_run := (should_run e)(s \<mapsto> is_local rt s), calls := calls e @ [CountMesh s]\<rparr>)"
  by (simp add: shouldRun_def subscript_Some is_local_def count_pos_iff)

text \<open>The stage handler in one equation: what it returns and the state it leaves.\<close>

lemma handle_stage_eq:
  "handle_stage rt e s =
    (let st = stage_at (pipeline rt) s;
         ri = read_inputs (inputs st) (val_to_IValue e) [];
         b = (case should_run e s of Some b \<Rightarrow> b | None \<Rightarrow> is_local rt s);
         runner = (case fec e s of Some f \<Rightarrow> f | None \<Rightarrow> FusionExecutorCache s);
         res = (if b then runFusionWithInputs rt runner (fst ri) else allocOutputSpace rt runner (fst ri));
         so = store_outputs (outputs st) res [0..<length (outputs st)] (snd ri)
     in (fst so,
         \<lparr>val_to_IValue = snd so,
          fec = (fec e)(s \<mapsto> runner),
          should_run = (should_run e)(s \<mapsto> b),
          calls = calls e @ (if fec e s = None then [MakeFec s] else [])
                          @ (if should_run e s = None then [CountMesh s] else [])
                          @ [if b then RunFusion s (fst ri) else AllocOutput s (fst ri)]\<rparr>))"
proof (cases "should_run e s")
  case None
  show ?thesis
  proof (cases "fec e s")
    case None
    with \<open>should_run e s = None\<close> show ?thesis
      by (cases e) (simp add: handle_stage_def Let_def split_beta shouldRun_first subscript_Some)
  next
    case (Some f)
    with \<open>should_run e s = None\<close> show ?thesis
      by (cases e) (simp add: handle_stage_def Let_def split_beta shouldRun_first subscript_Some map_upd_triv)
  qed
next
  case (Some b)
  show ?thesis
  proof (cases "fec e s")
    case None
    with \<open>should_run e s = Some b\<close> show ?thesis
      by (cases e) (simp add: handle_stage_def Let_def split_beta shouldRun_cached subscript_Some map_upd_triv)
  next
    case (Some f)
    with \<open>should_run e s = Some b\<close> show ?thesis
      by (cases e) (simp add: handle_stage_def Let_def split_beta shouldRun_cached subscript_Some map_upd_triv)
  qed
qed

lemma handle_stage_should_run:
  "should_run (snd (handle_stage rt e s))
     = (should_run e)(s \<mapsto> (case should_run e s of Some b \<Rightarrow> b | None \<Rightarrow> is_local rt s))"
  by (simp add: handle_stage_eq Let_def)

lemma handle_stage_fec:
  "fec (snd (handle_stage rt e s))
     = (fec e)(s \<mapsto> (case fec e s of Some f \<Rightarrow> f | None \<Rightarrow> FusionExecutorCache s))"
  by (simp add: handle_stage_eq Let_def)

lemma handle_stage_calls:
  "\<exists>ev. (\<forall>s'. ev \<noteq> MakeFec s' \<and> ev \<noteq> CountMesh s') \<and>
     calls (snd (handle_stage rt e s))
       = calls e @ (if fec e s = None then [MakeFec s] else [])
                 @ (if should_run e s = None then [CountMesh s] else []) @ [ev]"
  by (simp add: handle_stage_eq Let_def)

lemma store_outputs_result:
  "fst (store_outputs outs res idxs m) = (if \<forall>idx \<in> set idxs. idx < length res then Inr () else Inl OutOfRange)"
  by (induction idxs arbitrary: m) simp_all

lemma store_outputs_irange:
  "fst (store_outputs outs res [0..<n] m) = (if length res < n then Inl OutOfRange else Inr ())"
proof -
  have "(\<forall>idx \<in> set [0..<n]. idx < length res) = (\<not> length res < n)"
    by (auto simp: not_less)
  then show ?thesis by (simp add: store_outputs_result)
qed

text \<open>The transfer loops append the calls of \<^const>\<open>transfers\<close> to the log.\<close>

lemma fold_snoc_map: "fold (\<lambda>x l. l @ [f x]) xs log = log @ map f xs"
  by (induction xs arbitrary: log) simp_all

lemma send_team_eq:
  "send_team t c log = log @ map (\<lambda>receiver_rank. SendRecv receiver_rank (root c) t) (team c)"
  by (simp add: send_team_def fold_snoc_map)

lemma send_all_eq: "send_all t cs log = log @ transfers t cs"
  unfolding send_all_def transfers_def
  by (induction cs arbitrary: log) (simp_all add: send_team_eq)

lemma transfers_no_cache_event:
  "MakeFec s \<notin> set (transfers t cs)" "CountMesh s \<notin> set (transfers t cs)"
  by (auto simp: transfers_def)

lemma count_transfers:
  "count_list (transfers t cs) (MakeFec s) = 0" "count_list (transfers t cs) (CountMesh s) = 0"
  by (simp_all add: count_list_0_iff transfers_no_cache_event)

lemma length_concat_cons:
  "length (concat (map (\<lambda>k. a k # map (g k) (sl k)) [0..<n])) = n + length (concat (map sl [0..<n]))"
  by (induction n) simp_all

lemma handle_comm_cases:
  "handle_comm rt e c = (r, e') \<Longrightarrow>
   (e' = e \<and> r \<noteq> Inr ()) \<or>
   (\<exists>t cs. r = Inr () \<and> lower_communication (sender_ranks_of rt c) (receiver_ranks_of rt c) = Inr cs
        \<and> val_to_IValue e (c_in c) = Some (ITensor t)
        \<and> e' = e\<lparr>calls := calls e @ transfers t cs,
                  val_to_IValue := (val_to_IValue e)(c_out c \<mapsto> ITensor t)\<rparr>)"
  unfolding handle_comm_def
  by (auto simp: send_all_eq toTensor_Inr_iff split: sum.splits option.splits)

lemma handle_comm_completes_iff:
  assumes "sender_ranks_of rt c \<noteq> []"
  shows "(fst (handle_comm rt e c) = Inr ()) = (\<exists>t. val_to_IValue e (c_in c) = Some (ITensor t))"
  using lower_communication_eq[OF assms, of "receiver_ranks_of rt c"]
  by (auto simp: handle_comm_def toTensor_Inr_iff split: option.splits sum.splits)

lemma handle_comm_ok:
  assumes "sender_ranks_of rt c \<noteq> []" "val_to_IValue e (c_in c) = Some (ITensor t)"
  shows "handle_comm rt e c =
    (Inr (), e\<lparr>calls := calls e @ transfers t
                  (map (\<lambda>k. \<lparr>team = sender_ranks_of rt c ! k # slice_of (sender_ranks_of rt c) (receiver_ranks_of rt c) k,
                            root = sender_ranks_of rt c ! k\<rparr>) [0..<length (sender_ranks_of rt c)]),
                val_to_IValue := (val_to_IValue e)(c_out c \<mapsto> ITensor t)\<rparr>)"
  using assms lower_communication_eq[OF assms(1), of "receiver_ranks_of rt c"]
  by (simp add: handle_comm_def send_all_eq)

subsection \<open>Bindings are added, never removed\<close>








subsection \<open>Every member function extends the state\<close>

lemma extends_refl: "extends e e"
  by (simp add: extends_def)






lemma shouldRun_extends: "extends e (snd (shouldRun rt e s))"
proof (cases "should_run e s")
  case None
  then show ?thesis
    by (auto simp: shouldRun_first extends_def map_le_def)
next
  case (Some b)
  then show ?thesis by (simp add: shouldRun_cached extends_refl)
qed






subsection \<open>The caches stay sound\<close>

lemma cache_sound_new: "cache_sound rt new_executor"
  by (simp add: cache_sound_def new_executor_def)

lemma cache_sound_val_update:
  "cache_sound rt (e\<lparr>val_to_IValue := m\<rparr>) = cache_sound rt e"
  by (simp add: cache_sound_def)

lemma cache_sound_should_run:
  "cache_sound rt e \<Longrightarrow> should_run e s = Some b \<Longrightarrow> b = is_local rt s"
  by (simp add: cache_sound_def)

lemma cache_sound_fec:
  "cache_sound rt e \<Longrightarrow> fec e s = Some f \<Longrightarrow> f = FusionExecutorCache s"
  by (simp add: cache_sound_def)



lemma cache_sound_shouldRun:
  assumes "cache_sound rt e"
  shows "cache_sound rt (snd (shouldRun rt e s))"
proof (cases "should_run e s")
  case None
  with assms show ?thesis
    by (simp add: shouldRun_first cache_sound_def)
next
  case (Some b)
  with assms show ?thesis by (simp add: shouldRun_cached)
qed

lemma cache_sound_handle_stage:
  assumes "cache_sound rt e"
  shows "cache_sound rt (snd (handle_stage rt e s))"
proof -
  let ?e' = "snd (handle_stage rt e s)"
  obtain ev where ev: "\<forall>s'. ev \<noteq> MakeFec s' \<and> ev \<noteq> CountMesh s'"
    and c: "calls ?e' = calls e @ (if fec e s = None then [MakeFec s] else [])
                 @ (if should_run e s = None then [CountMesh s] else []) @ [ev]"
    using handle_stage_calls[of rt e s] by blast
  have sr: "should_run ?e' = (should_run e)(s \<mapsto> (case should_run e s of Some b \<Rightarrow> b | None \<Rightarrow> is_local rt s))"
    by (rule handle_stage_should_run)
  have fe: "fec ?e' = (fec e)(s \<mapsto> (case fec e s of Some f \<Rightarrow> f | None \<Rightarrow> FusionExecutorCache s))"
    by (rule handle_stage_fec)
  show ?thesis
    unfolding cache_sound_def
  proof (intro allI conjI impI)
    fix s'
    show "count_list (calls ?e') (CountMesh s') = (if should_run ?e' s' = None then 0 else 1)"
      using assms ev by (auto simp: c sr cache_sound_def)
    show "count_list (calls ?e') (MakeFec s') = (if fec ?e' s' = None then 0 else 1)"
      using assms ev by (auto simp: c fe cache_sound_def)
  next
    fix s' b
    assume a: "should_run ?e' s' = Some b"
    show "b = is_local rt s'"
    proof (cases "s' = s")
      case True
      with a show ?thesis
        using cache_sound_should_run[OF assms, of s]
        by (cases "should_run e s") (simp_all add: sr)
    next
      case False
      with a have "should_run e s' = Some b" by (simp add: sr)
      then show ?thesis by (rule cache_sound_should_run[OF assms])
    qed
  next
    fix s' f
    assume a: "fec ?e' s' = Some f"
    show "f = FusionExecutorCache s'"
    proof (cases "s' = s")
      case True
      with a show ?thesis
        using cache_sound_fec[OF assms, of s]
        by (cases "fec e s") (simp_all add: fe)
    next
      case False
      with a have "fec e s' = Some f" by (simp add: fe)
      then show ?thesis by (rule cache_sound_fec[OF assms])
    qed
  qed
qed

lemma cache_sound_handle_comm:
  assumes "cache_sound rt e"
  shows "cache_sound rt (snd (handle_comm rt e c))"
proof -
  obtain r e' where h: "handle_comm rt e c = (r, e')" by (cases "handle_comm rt e c")
  from handle_comm_cases[OF h] show ?thesis
  proof
    assume "e' = e \<and> r \<noteq> Inr ()"
    with h assms show ?thesis by simp
  next
    assume "\<exists>t cs. r = Inr () \<and> lower_communication (sender_ranks_of rt c) (receiver_ranks_of rt c) = Inr cs
        \<and> val_to_IValue e (c_in c) = Some (ITensor t)
        \<and> e' = e\<lparr>calls := calls e @ transfers t cs,
                  val_to_IValue := (val_to_IValue e)(c_out c \<mapsto> ITensor t)\<rparr>"
    then obtain t cs where "e' = e\<lparr>calls := calls e @ transfers t cs,
                  val_to_IValue := (val_to_IValue e)(c_out c \<mapsto> ITensor t)\<rparr>" by blast
    with h assms show ?thesis
      by (simp add: cache_sound_def count_transfers)
  qed
qed

lemma cache_sound_handle:
  "cache_sound rt e \<Longrightarrow> cache_sound rt (snd (handle rt e n))"
  by (cases n) (simp_all add: cache_sound_handle_stage cache_sound_handle_comm)

lemma cache_sound_traverseTo:
  "cache_sound rt e \<Longrightarrow> cache_sound rt (snd (traverseTo rt e ns))"
proof (induction ns arbitrary: e)
  case Nil
  then show ?case by simp
next
  case (Cons n ns)
  obtain r e1 where h: "handle rt e n = (r, e1)" by (cases "handle rt e n")
  have 1: "cache_sound rt e1" using cache_sound_handle[OF Cons.prems, of n] h by simp
  show ?case
  proof (cases r)
    case (Inl f)
    with h 1 show ?thesis by simp
  next
    case (Inr u)
    with h Cons.IH[OF 1] show ?thesis by simp
  qed
qed

lemma cache_sound_runWithInput:
  assumes "cache_sound rt e"
  shows "cache_sound rt (snd (runWithInput rt e ins))"
proof (cases "length ins \<noteq> length (p_inputs (pipeline rt))")
  case True
  with assms show ?thesis by (simp add: runWithInput_def)
next
  case False
  let ?e1 = "e\<lparr>val_to_IValue := bind_inputs (p_inputs (pipeline rt)) ins (val_to_IValue e)\<rparr>"
  obtain r e2 where t: "traverseTo rt ?e1 (traversal (pipeline rt)) = (r, e2)"
    by (cases "traverseTo rt ?e1 (traversal (pipeline rt))")
  have "cache_sound rt ?e1" using assms by (simp add: cache_sound_val_update)
  from cache_sound_traverseTo[OF this, of "traversal (pipeline rt)"] t
  have 2: "cache_sound rt e2" by simp
  show ?thesis
  proof (cases r)
    case (Inl f)
    with False t 2 show ?thesis by (simp add: runWithInput_def Let_def)
  next
    case (Inr u)
    with False t 2 show ?thesis
      by (simp add: runWithInput_def Let_def split_beta cache_sound_val_update)
  qed
qed

lemma reachable_cache_sound: "reachable rt e \<Longrightarrow> cache_sound rt e"
proof (induction rule: reachable.induct)
  case constructed
  show ?case by (rule cache_sound_new)
next
  case (after_run e ins)
  then show ?case by (simp add: cache_sound_runWithInput)
next
  case (after_handle e n)
  then show ?case by (simp add: cache_sound_handle)
next
  case (after_query e s)
  then show ?case by (simp add: cache_sound_shouldRun)
qed








subsection \<open>The state in which the stage handler asks for the membership\<close>

lemma handle_stage_queries_at:
  "handle_stage rt e s =
     (let st = stage_at (pipeline rt) s;
          stage_input_IValues = fst (read_inputs (inputs st) (val_to_IValue e) []);
          (run, e3) = shouldRun rt (query_state rt e s) s
      in case fec e3 s of
           None \<Rightarrow> undefined
         | Some runner \<Rightarrow>
             (let res = (if run then runFusionWithInputs rt runner stage_input_IValues
                         else allocOutputSpace rt runner stage_input_IValues);
                  e4 = e3\<lparr>calls := calls e3 @ [if run then RunFusion s stage_input_IValues
                                                   else AllocOutput s stage_input_IValues]\<rparr>;
                  (r, m2) = store_outputs (outputs st) res [0..<length (outputs st)] (val_to_IValue e4)
              in (r, e4\<lparr>val_to_IValue := m2\<rparr>)))"
  by (cases "fec e s") (simp_all add: handle_stage_def query_state_def Let_def split_beta cong: option.case_cong)

lemma query_state_fec: "fec (query_state rt e s) s \<noteq> None"
  by (simp add: query_state_def Let_def)

lemma query_state_should_run: "should_run (query_state rt e s) = should_run e"
  by (simp add: query_state_def Let_def)

lemma cache_sound_query_state:
  assumes "cache_sound rt e"
  shows "cache_sound rt (query_state rt e s)"
proof (cases "fec e s")
  case None
  with assms show ?thesis
    by (simp add: query_state_def Let_def cache_sound_def)
next
  case (Some f)
  with assms show ?thesis
    by (simp add: query_state_def Let_def cache_sound_val_update)
qed

lemma reachable_query_sound: "reachable rt e \<Longrightarrow> cache_sound rt (query_state rt e s)"
  by (rule cache_sound_query_state) (rule reachable_cache_sound)

section \<open>The example pipeline, evaluated\<close>

lemmas example_defs = example_runtime_def uneven_runtime_def example_pipeline_def example_stage_def example_comm_def
  input_bound_def producer_bound_def new_executor_def sender_ranks_of_def receiver_ranks_of_def
  stage_mesh_def local_device_def is_local_def

lemma example_lowering: "lower_communication [0] [1, 2] = Inr [\<lparr>team = [0, 1, 2], root = 0\<rparr>]"
  by (simp add: lower_communication_def split_dests.simps fill_team.simps)


section \<open>Transfer execution\<close>

text \<open>
  Claim C2 says that no call is made whose receiver is the root itself. The loop of lines
  111 to 116 goes over the whole team, and the team starts with the root (line 91): with
  one sender 0 and receivers 1 and 2 the first call is addressed to rank 0 by rank 0.
\<close>

theorem self_transfer_counterexample:
  "lower_communication (sender_ranks_of (example_runtime 0 [0] [Tensor 9]) example_comm)
       (receiver_ranks_of (example_runtime 0 [0] [Tensor 9]) example_comm)
     = Inr [\<lparr>team = [0, 1, 2], root = 0\<rparr>]
   \<and> calls (snd (handle_comm (example_runtime 0 [0] [Tensor 9]) producer_bound example_comm))
     = [SendRecv 0 0 (Tensor 7), SendRecv 1 0 (Tensor 7), SendRecv 2 0 (Tensor 7)]"
  by (simp add: handle_comm_def example_defs example_lowering send_all_def send_team_def)

text \<open>
  Claim C2, as the code has it. When transfer execution of an edge completes, the calls
  added to the log are one \<^verbatim>\<open>sendRecv\<close> for each member of each descriptor's team, in
  descriptor-then-team order, with the descriptor's root as sender and the member as
  receiver; the root is a member of its own team, so each descriptor gives one call
  whose receiver is the root itself (for a sender list that is not empty: with no
  sender the lowering has no defined result to speak of).
\<close>

theorem handle_comm_transfers:
  assumes "fst (handle_comm rt e c) = Inr ()"
  shows "\<exists>t cs. val_to_IValue e (c_in c) = Some (ITensor t)
     \<and> lower_communication (sender_ranks_of rt c) (receiver_ranks_of rt c) = Inr cs
     \<and> calls (snd (handle_comm rt e c))
         = calls e @ concat (map (\<lambda>d. map (\<lambda>member. SendRecv member (root d) t) (team d)) cs)
     \<and> (sender_ranks_of rt c \<noteq> [] \<longrightarrow>
          (\<forall>d \<in> set cs. SendRecv (root d) (root d) t \<in> set (calls (snd (handle_comm rt e c)))))"
proof -
  obtain r e' where h: "handle_comm rt e c = (r, e')" by (cases "handle_comm rt e c")
  with assms have r: "r = Inr ()" by simp
  from handle_comm_cases[OF h] r obtain t cs where
    lo: "lower_communication (sender_ranks_of rt c) (receiver_ranks_of rt c) = Inr cs"
    and t: "val_to_IValue e (c_in c) = Some (ITensor t)"
    and e': "e' = e\<lparr>calls := calls e @ transfers t cs,
                  val_to_IValue := (val_to_IValue e)(c_out c \<mapsto> ITensor t)\<rparr>"
    by blast
  have c: "calls (snd (handle_comm rt e c))
         = calls e @ concat (map (\<lambda>d. map (\<lambda>member. SendRecv member (root d) t) (team d)) cs)"
    using h e' by (simp add: transfers_def)
  have "sender_ranks_of rt c \<noteq> [] \<longrightarrow>
          (\<forall>d \<in> set cs. SendRecv (root d) (root d) t \<in> set (calls (snd (handle_comm rt e c))))"
  proof (intro impI ballI)
    fix d assume s: "sender_ranks_of rt c \<noteq> []" and d: "d \<in> set cs"
    with lower_communication_roots[OF s lo] have "root d \<in> set (team d)" by blast
    with d show "SendRecv (root d) (root d) t \<in> set (calls (snd (handle_comm rt e c)))"
      unfolding c by auto
  qed
  with t lo c show ?thesis by blast
qed

theorem handle_comm_transfers_witness:
  "fst (handle_comm (example_runtime 0 [0] [Tensor 9]) producer_bound example_comm) = Inr ()
   \<and> sender_ranks_of (example_runtime 0 [0] [Tensor 9]) example_comm \<noteq> []
   \<and> (\<exists>t cs. val_to_IValue producer_bound (c_in example_comm) = Some (ITensor t)
     \<and> lower_communication (sender_ranks_of (example_runtime 0 [0] [Tensor 9]) example_comm)
          (receiver_ranks_of (example_runtime 0 [0] [Tensor 9]) example_comm) = Inr cs
     \<and> calls (snd (handle_comm (example_runtime 0 [0] [Tensor 9]) producer_bound example_comm))
         = calls producer_bound @ concat (map (\<lambda>d. map (\<lambda>member. SendRecv member (root d) t) (team d)) cs)
     \<and> (\<forall>d \<in> set cs. SendRecv (root d) (root d) t
            \<in> set (calls (snd (handle_comm (example_runtime 0 [0] [Tensor 9]) producer_bound example_comm)))))"
proof -
  have h: "fst (handle_comm (example_runtime 0 [0] [Tensor 9]) producer_bound example_comm) = Inr ()"
    by (simp add: handle_comm_def example_defs example_lowering send_all_def send_team_def)
  have s: "sender_ranks_of (example_runtime 0 [0] [Tensor 9]) example_comm \<noteq> []"
    by (simp add: example_defs)
  from handle_comm_transfers[OF h] h s show ?thesis by blast
qed

text \<open>
  Claim C10. For an edge with a non-empty sender list whose producer value is bound to a
  tensor, the executor calls \<^verbatim>\<open>sendRecv\<close> exactly \<open>|S| + |R|\<close> times: for each sender in
  order one self-addressed call and then one call for each receiver of its slice. Every
  descriptor's team has its root as first member.
\<close>

theorem handle_comm_call_count:
  assumes "sender_ranks_of rt c \<noteq> []" and "val_to_IValue e (c_in c) = Some (ITensor t)"
  shows "\<exists>sends. calls (snd (handle_comm rt e c)) = calls e @ sends
     \<and> length sends = length (sender_ranks_of rt c) + length (receiver_ranks_of rt c)
     \<and> sends = concat (map (\<lambda>i. SendRecv (sender_ranks_of rt c ! i) (sender_ranks_of rt c ! i) t
                                  # map (\<lambda>receiver_rank. SendRecv receiver_rank (sender_ranks_of rt c ! i) t)
                                      (slice_of (sender_ranks_of rt c) (receiver_ranks_of rt c) i))
                          [0..<length (sender_ranks_of rt c)])
     \<and> (\<forall>cs. lower_communication (sender_ranks_of rt c) (receiver_ranks_of rt c) = Inr cs
            \<longrightarrow> (\<forall>d \<in> set cs. hd (team d) = root d))"
proof -
  let ?S = "sender_ranks_of rt c" and ?R = "receiver_ranks_of rt c"
  let ?sends = "concat (map (\<lambda>i. SendRecv (?S ! i) (?S ! i) t
                                  # map (\<lambda>receiver_rank. SendRecv receiver_rank (?S ! i) t) (slice_of ?S ?R i))
                          [0..<length ?S])"
  have 1: "calls (snd (handle_comm rt e c)) = calls e @ ?sends"
    by (simp add: handle_comm_ok[OF assms] transfers_def comp_def)
  have "length ?sends = length ?S + length (concat (map (slice_of ?S ?R) [0..<length ?S]))"
    by (rule length_concat_cons)
  also have "concat (map (slice_of ?S ?R) [0..<length ?S]) = ?R"
    using concat_slices[of "length ?S" ?S ?R] assms(1) by (simp add: first_dest_all)
  finally have 2: "length ?sends = length ?S + length ?R" .
  have 3: "\<forall>cs. lower_communication ?S ?R = Inr cs \<longrightarrow> (\<forall>d \<in> set cs. hd (team d) = root d)"
    using lower_communication_roots[OF assms(1)] by blast
  from 1 2 3 show ?thesis by blast
qed

theorem handle_comm_call_count_witness:
  "sender_ranks_of (example_runtime 2 [0] [Tensor 9]) example_comm \<noteq> []
   \<and> val_to_IValue producer_bound (c_in example_comm) = Some (ITensor (Tensor 7))
   \<and> (\<exists>sends. calls (snd (handle_comm (example_runtime 2 [0] [Tensor 9]) producer_bound example_comm))
                 = calls producer_bound @ sends
         \<and> length sends = 1 + 2)"
proof -
  have h1: "sender_ranks_of (example_runtime 2 [0] [Tensor 9]) example_comm \<noteq> []"
    by (simp add: example_defs)
  have h2: "val_to_IValue producer_bound (c_in example_comm) = Some (ITensor (Tensor 7))"
    by (simp add: example_defs)
  have l: "length (sender_ranks_of (example_runtime 2 [0] [Tensor 9]) example_comm) = 1"
     "length (receiver_ranks_of (example_runtime 2 [0] [Tensor 9]) example_comm) = 2"
    by (simp_all add: example_defs)
  from handle_comm_call_count[OF h1 h2] obtain sends where
    "calls (snd (handle_comm (example_runtime 2 [0] [Tensor 9]) producer_bound example_comm))
                 = calls producer_bound @ sends"
    "length sends = length (sender_ranks_of (example_runtime 2 [0] [Tensor 9]) example_comm)
        + length (receiver_ranks_of (example_runtime 2 [0] [Tensor 9]) example_comm)"
    by blast
  with h1 h2 l show ?thesis by auto
qed

text \<open>
  Claim C5 says that a rank that is neither sender nor receiver does not bind the
  consumer value. Line 117 binds it on every rank: rank 3 is outside both meshes of the
  example edge and ends the call with value 2 bound.
\<close>

theorem bystander_binds_counterexample:
  "rank (example_runtime 3 [0] [Tensor 9]) \<notin> set (sender_ranks_of (example_runtime 3 [0] [Tensor 9]) example_comm)
   \<and> rank (example_runtime 3 [0] [Tensor 9]) \<notin> set (receiver_ranks_of (example_runtime 3 [0] [Tensor 9]) example_comm)
   \<and> val_to_IValue producer_bound (c_out example_comm) = None
   \<and> fst (handle_comm (example_runtime 3 [0] [Tensor 9]) producer_bound example_comm) = Inr ()
   \<and> val_to_IValue (snd (handle_comm (example_runtime 3 [0] [Tensor 9]) producer_bound example_comm)) (c_out example_comm)
        = Some (ITensor (Tensor 7))"
  by (simp add: handle_comm_def example_defs example_lowering send_all_def send_team_def)

text \<open>
  Claim C5, as the code has it. When transfer execution of an edge completes, on any
  rank (sender, receiver or neither), the producer value was bound to a tensor and the
  ValueStore is the one before with the consumer value bound to that tensor.
\<close>

theorem handle_comm_binds_consumer:
  assumes "fst (handle_comm rt e c) = Inr ()"
  shows "\<exists>t. val_to_IValue e (c_in c) = Some (ITensor t)
           \<and> val_to_IValue (snd (handle_comm rt e c)) = (val_to_IValue e)(c_out c \<mapsto> ITensor t)"
proof -
  obtain r e' where h: "handle_comm rt e c = (r, e')" by (cases "handle_comm rt e c")
  with assms have r: "r = Inr ()" by simp
  from handle_comm_cases[OF h] r obtain t cs where
    t: "val_to_IValue e (c_in c) = Some (ITensor t)"
    and e': "e' = e\<lparr>calls := calls e @ transfers t cs,
                  val_to_IValue := (val_to_IValue e)(c_out c \<mapsto> ITensor t)\<rparr>"
    by blast
  with h show ?thesis by simp
qed

theorem handle_comm_binds_consumer_witness:
  "fst (handle_comm (example_runtime 3 [0] [Tensor 9]) producer_bound example_comm) = Inr ()
   \<and> (\<exists>t. val_to_IValue producer_bound (c_in example_comm) = Some (ITensor t)
           \<and> val_to_IValue (snd (handle_comm (example_runtime 3 [0] [Tensor 9]) producer_bound example_comm))
              = (val_to_IValue producer_bound)(c_out example_comm \<mapsto> ITensor t))"
proof -
  have h: "fst (handle_comm (example_runtime 3 [0] [Tensor 9]) producer_bound example_comm) = Inr ()"
    by (simp add: handle_comm_def example_defs example_lowering send_all_def send_team_def)
  from handle_comm_binds_consumer[OF h] h show ?thesis by simp
qed

text \<open>
  Claim C7 asks for a fatal error when the edge has no sender. Lines 84 to 86 divide by
  the number of senders without looking at it, so an edge whose producer stage has an
  empty mesh reaches the division of line 85 with a divisor of zero: the program has no
  defined behaviour there and signals nothing of its own. The theorem follows the
  handler up to that line on such an edge.
\<close>

theorem no_sender_reaches_division:
  "stage_mesh (example_runtime 1 [] [Tensor 9]) (getStage (pipeline (example_runtime 1 [] [Tensor 9])) (c_in example_comm)) = []
   \<and> sender_ranks_of (example_runtime 1 [] [Tensor 9]) example_comm = []
   \<and> receiver_ranks_of (example_runtime 1 [] [Tensor 9]) example_comm = [1, 2]
   \<and> length (sender_ranks_of (example_runtime 1 [] [Tensor 9]) example_comm) = 0"
  by (simp add: example_defs)

section \<open>Stage execution\<close>

text \<open>
  Claim C3 asks for a fatal failure when an input of the stage has no binding. The stage
  handler reads its inputs with \<^verbatim>\<open>operator[]\<close> (line 31), where the edge handler uses
  \<^verbatim>\<open>at\<close> (line 104). On stage 1 of the example with an empty ValueStore the
  handler returns normally: the missing input is inserted as a None value and the runner
  is invoked with it.
\<close>

theorem unbound_input_reaches_runner:
  "inputs (stage_at (pipeline (example_runtime 0 [0] [Tensor 9])) 1) = [0]
   \<and> val_to_IValue new_executor 0 = None
   \<and> fst (handle_stage (example_runtime 0 [0] [Tensor 9]) new_executor 1) = Inr ()
   \<and> calls (snd (handle_stage (example_runtime 0 [0] [Tensor 9]) new_executor 1))
        = [MakeFec 1, CountMesh 1, RunFusion 1 [INone]]
   \<and> val_to_IValue (snd (handle_stage (example_runtime 0 [0] [Tensor 9]) new_executor 1)) 0 = Some INone"
  by (simp add: handle_stage_eq Let_def example_defs subscript_def)

text \<open>
  Claim C6 says that a runner returning more outputs than the stage declares is fatal.
  The loop of lines 49 to 51 runs over the declared outputs only: stage 1 declares one
  output, the runner returns two, and the handler returns normally.
\<close>

theorem surplus_outputs_counterexample:
  "length (outputs (stage_at (pipeline (example_runtime 0 [0] [Tensor 8, Tensor 9])) 1)) = 1
   \<and> length (runFusionWithInputs (example_runtime 0 [0] [Tensor 8, Tensor 9]) (FusionExecutorCache 1) [ITensor (Tensor 5)]) = 2
   \<and> calls (snd (handle_stage (example_runtime 0 [0] [Tensor 8, Tensor 9]) input_bound 1))
       = [MakeFec 1, CountMesh 1, RunFusion 1 [ITensor (Tensor 5)]]
   \<and> fst (handle_stage (example_runtime 0 [0] [Tensor 8, Tensor 9]) input_bound 1) = Inr ()"
  by (simp add: handle_stage_eq Let_def example_defs subscript_def)

text \<open>
  Claim C6, as the code has it. Processing a stage makes one call of its cached runner,
  the last entry of the log. The handler fails (with the \<^verbatim>\<open>std::out_of_range\<close> of
  \<^verbatim>\<open>at\<close>) exactly when that call returns fewer tensors than the stage declares outputs;
  with as many tensors or more it returns normally.
\<close>

theorem handle_stage_output_arity:
  "\<exists>runner ivs res.
      fec (snd (handle_stage rt e s)) s = Some runner
    \<and> (last (calls (snd (handle_stage rt e s))) = RunFusion s ivs \<and> res = runFusionWithInputs rt runner ivs
       \<or> last (calls (snd (handle_stage rt e s))) = AllocOutput s ivs \<and> res = allocOutputSpace rt runner ivs)
    \<and> fst (handle_stage rt e s)
         = (if length res < length (outputs (stage_at (pipeline rt) s)) then Inl OutOfRange else Inr ())
    \<and> fails_fatally (fst (handle_stage rt e s)) = (length res < length (outputs (stage_at (pipeline rt) s)))"
proof -
  let ?st = "stage_at (pipeline rt) s"
  let ?ivs = "fst (read_inputs (inputs ?st) (val_to_IValue e) [])"
  let ?b = "case should_run e s of Some b \<Rightarrow> b | None \<Rightarrow> is_local rt s"
  let ?runner = "case fec e s of Some f \<Rightarrow> f | None \<Rightarrow> FusionExecutorCache s"
  let ?res = "if ?b then runFusionWithInputs rt ?runner ?ivs else allocOutputSpace rt ?runner ?ivs"
  have 1: "fec (snd (handle_stage rt e s)) s = Some ?runner"
    by (simp add: handle_stage_fec)
  have 2: "last (calls (snd (handle_stage rt e s))) = (if ?b then RunFusion s ?ivs else AllocOutput s ?ivs)"
    by (simp add: handle_stage_eq Let_def)
  have 3: "fst (handle_stage rt e s) = (if length ?res < length (outputs ?st) then Inl OutOfRange else Inr ())"
    by (simp add: handle_stage_eq Let_def store_outputs_irange)
  have 4: "fails_fatally (fst (handle_stage rt e s)) = (length ?res < length (outputs ?st))"
    by (simp add: 3 fails_fatally_def)
  show ?thesis
  proof (cases ?b)
    case True
    with 2 have "last (calls (snd (handle_stage rt e s))) = RunFusion s ?ivs
       \<and> ?res = runFusionWithInputs rt ?runner ?ivs" by simp
    with 1 3 4 show ?thesis by blast
  next
    case False
    with 2 have "last (calls (snd (handle_stage rt e s))) = AllocOutput s ?ivs
       \<and> ?res = allocOutputSpace rt ?runner ?ivs" by simp
    with 1 3 4 show ?thesis by blast
  qed
qed

theorem handle_stage_output_arity_witness:
  "last (calls (snd (handle_stage (uneven_runtime 1) input_bound 1))) = AllocOutput 1 [ITensor (Tensor 5)]
   \<and> length (allocOutputSpace (uneven_runtime 1) (FusionExecutorCache 1) [ITensor (Tensor 5)]) = 2
   \<and> length (outputs (stage_at (pipeline (uneven_runtime 1)) 1)) = 1
   \<and> fst (handle_stage (uneven_runtime 1) input_bound 1) = Inr ()
   \<and> last (calls (snd (handle_stage (uneven_runtime 1) producer_bound 2))) = RunFusion 2 [INone]
   \<and> length (runFusionWithInputs (uneven_runtime 1) (FusionExecutorCache 2) [INone]) = 0
   \<and> length (outputs (stage_at (pipeline (uneven_runtime 1)) 2)) = 1
   \<and> fst (handle_stage (uneven_runtime 1) producer_bound 2) = Inl OutOfRange"
  using handle_stage_output_arity[of "uneven_runtime 1" input_bound 1]
    handle_stage_output_arity[of "uneven_runtime 1" producer_bound 2]
  by (simp add: handle_stage_eq Let_def example_defs subscript_def)

section \<open>Membership resolution\<close>

text \<open>
  Claim C8. The caches of an executor are sound from its construction on
  (\<open>cache_sound_new\<close>), after every member function (\<open>cache_sound_runWithInput\<close>,
  \<open>cache_sound_handle\<close>, \<open>cache_sound_shouldRun\<close>) and in the state in which line 44 asks
  for the membership (\<open>handle_stage_queries_at\<close>, \<open>cache_sound_query_state\<close>). In every such
  state \<^verbatim>\<open>shouldRun\<close> returns true exactly when the device of the local rank is in the
  stage's mesh. It leaves that boolean in the cache under the stage; it computes it (one
  entry more in the log) only when the stage had no entry, and otherwise leaves the
  executor untouched; asked again it answers the same without a change; the log holds
  exactly one membership computation for the stage afterwards; and the caches are sound
  again.
\<close>

theorem shouldRun_membership_cached:
  assumes "cache_sound rt e"
  shows "fst (shouldRun rt e s) = (rankToDiD rt (rank rt) \<in> set (mesh (stage_at (pipeline rt) s)))
     \<and> should_run (snd (shouldRun rt e s)) s = Some (fst (shouldRun rt e s))
     \<and> (should_run e s = None \<longrightarrow> calls (snd (shouldRun rt e s)) = calls e @ [CountMesh s])
     \<and> (should_run e s \<noteq> None \<longrightarrow> snd (shouldRun rt e s) = e)
     \<and> shouldRun rt (snd (shouldRun rt e s)) s = shouldRun rt e s
     \<and> count_list (calls (snd (shouldRun rt e s))) (CountMesh s) = 1
     \<and> cache_sound rt (snd (shouldRun rt e s))"
proof -
  have loc: "is_local rt s = (rankToDiD rt (rank rt) \<in> set (mesh (stage_at (pipeline rt) s)))"
    by (simp add: is_local_def local_device_def stage_mesh_def)
  have re: "cache_sound rt (snd (shouldRun rt e s))" using assms by (rule cache_sound_shouldRun)
  show ?thesis
  proof (cases "should_run e s")
    case None
    with assms re loc show ?thesis
      by (simp add: shouldRun_first shouldRun_cached cache_sound_def)
  next
    case (Some b)
    with assms have "b = is_local rt s" "count_list (calls e) (CountMesh s) = 1"
      by (simp_all add: cache_sound_def)
    with Some re loc show ?thesis
      by (simp add: shouldRun_cached)
  qed
qed

theorem shouldRun_membership_cached_witness:
  "cache_sound (example_runtime 1 [0] [Tensor 9]) (query_state (example_runtime 1 [0] [Tensor 9]) input_bound 2)
   \<and> fec (query_state (example_runtime 1 [0] [Tensor 9]) input_bound 2) 2 = Some (FusionExecutorCache 2)
   \<and> should_run (query_state (example_runtime 1 [0] [Tensor 9]) input_bound 2) 2 = None
   \<and> shouldRun (example_runtime 1 [0] [Tensor 9]) (query_state (example_runtime 1 [0] [Tensor 9]) input_bound 2) 2
       = (True, (query_state (example_runtime 1 [0] [Tensor 9]) input_bound 2)
                   \<lparr>should_run := [2 \<mapsto> True], calls := [MakeFec 2, CountMesh 2]\<rparr>)
   \<and> fst (shouldRun (example_runtime 1 [0] [Tensor 9]) (query_state (example_runtime 1 [0] [Tensor 9]) input_bound 1) 1)
       = False
   \<and> cache_sound (example_runtime 1 [0] [Tensor 9])
        (snd (runWithInput (example_runtime 1 [0] [Tensor 9]) new_executor [ITensor (Tensor 5)]))
   \<and> fst (shouldRun (example_runtime 1 [0] [Tensor 9])
        (snd (runWithInput (example_runtime 1 [0] [Tensor 9]) new_executor [ITensor (Tensor 5)])) 2) = True"
proof -
  let ?rt = "example_runtime 1 [0] [Tensor 9]"
  have s0: "cache_sound ?rt input_bound"
    using cache_sound_new[of ?rt] by (simp add: input_bound_def cache_sound_val_update)
  have h2: "cache_sound ?rt (query_state ?rt input_bound 2)" using s0 by (rule cache_sound_query_state)
  have h1: "cache_sound ?rt (query_state ?rt input_bound 1)" using s0 by (rule cache_sound_query_state)
  have h3: "cache_sound ?rt (snd (runWithInput ?rt new_executor [ITensor (Tensor 5)]))"
    using cache_sound_new by (rule cache_sound_runWithInput)
  have m: "(rankToDiD ?rt (rank ?rt) \<in> set (mesh (stage_at (pipeline ?rt) 2))) = True"
     "(rankToDiD ?rt (rank ?rt) \<in> set (mesh (stage_at (pipeline ?rt) 1))) = False"
    by (simp_all add: example_defs)
  have q: "fec (query_state ?rt input_bound 2) 2 = Some (FusionExecutorCache 2)"
      "should_run (query_state ?rt input_bound 2) 2 = None"
      "calls (query_state ?rt input_bound 2) = [MakeFec 2]"
      "should_run (query_state ?rt input_bound 2) = Map.empty"
    by (simp_all add: query_state_def Let_def example_defs)
  have ev: "shouldRun ?rt (query_state ?rt input_bound 2) 2
       = (True, (query_state ?rt input_bound 2)\<lparr>should_run := [2 \<mapsto> True], calls := [MakeFec 2, CountMesh 2]\<rparr>)"
    using q(2,3,4) by (simp add: shouldRun_first is_local_def local_device_def stage_mesh_def example_runtime_def example_pipeline_def example_stage_def)
  from shouldRun_membership_cached[OF h2, of 2] shouldRun_membership_cached[OF h1, of 1]
    shouldRun_membership_cached[OF h3, of 2] h2 h3 m q ev
  show ?thesis by simp
qed

section \<open>Top-level execution\<close>

text \<open>
  Claim C9. A call of \<^verbatim>\<open>runWithInput\<close> with a number of inputs other than the pipeline's
  fails with the internal assertion of line 123, and the executor, its ValueStore
  included, is as before the call.
\<close>

theorem runWithInput_wrong_arity:
  assumes "length ins \<noteq> length (p_inputs (pipeline rt))"
  shows "runWithInput rt e ins = (Inl (InternalAssert ''Wrong number of inputs''), e)
     \<and> fails_fatally (fst (runWithInput rt e ins))"
  using assms by (simp add: runWithInput_def fails_fatally_def)

theorem runWithInput_wrong_arity_witness:
  "length ([] :: IValue list) \<noteq> length (p_inputs (pipeline (example_runtime 1 [0] [Tensor 9])))
   \<and> runWithInput (example_runtime 1 [0] [Tensor 9]) input_bound []
        = (Inl (InternalAssert ''Wrong number of inputs''), input_bound)
   \<and> val_to_IValue (snd (runWithInput (example_runtime 1 [0] [Tensor 9]) input_bound [])) = val_to_IValue input_bound"
proof -
  have h: "length ([] :: IValue list) \<noteq> length (p_inputs (pipeline (example_runtime 1 [0] [Tensor 9])))"
    by (simp add: example_defs)
  from runWithInput_wrong_arity[OF h, of input_bound] h show ?thesis by simp
qed




end
